theory Spec2Isabelle
  imports Main "HOL-Library.Sublist"
begin

section \<open>icacls2h: the DACL line parser and renderer\<close>

text \<open>
  A shallow embedding of \<^verbatim>\<open>icacls2h.py\<close>. Python strings are modelled as
  \<^typ>\<open>string\<close>; a \<^typ>\<open>char\<close> stands for a code point below 256, and the
  character classes of the Python library (\<^verbatim>\<open>\w\<close>, whitespace, line boundaries,
  printable characters) are written out for that range.
\<close>

subsection \<open>Characters\<close>

definition TAB :: char where "TAB = CHR 0x09"
definition LF :: char where "LF = CHR 0x0A"
definition CR :: char where "CR = CHR 0x0D"
definition QUOTE :: char where "QUOTE = CHR 0x27"
definition DQUOTE :: char where "DQUOTE = CHR 0x22"
definition BACKSLASH :: char where "BACKSLASH = CHR 0x5C"

text \<open>The code point of a character.\<close>

definition ord :: "char \<Rightarrow> nat" where
  "ord c = of_char c"

text \<open>
  \<^verbatim>\<open>\w\<close> of a \<^verbatim>\<open>str\<close> pattern: the underscore and every character for which
  \<^verbatim>\<open>str.isalnum\<close> holds.
\<close>

definition is_word_char :: "char \<Rightarrow> bool" where
  "is_word_char c =
     (let n = ord c in
        (0x30 \<le> n \<and> n \<le> 0x39) \<or> (0x41 \<le> n \<and> n \<le> 0x5A) \<or> n = 0x5F \<or>
        (0x61 \<le> n \<and> n \<le> 0x7A) \<or>
        n = 0xAA \<or> n = 0xB2 \<or> n = 0xB3 \<or> n = 0xB5 \<or> n = 0xB9 \<or> n = 0xBA \<or>
        (0xBC \<le> n \<and> n \<le> 0xBE) \<or> (0xC0 \<le> n \<and> n \<le> 0xD6) \<or>
        (0xD8 \<le> n \<and> n \<le> 0xF6) \<or> 0xF8 \<le> n)"

text \<open>The character class \<^verbatim>\<open>[\w,]\<close> of \<^verbatim>\<open>RE_ACE\<close>.\<close>

definition ace_char :: "char \<Rightarrow> bool" where
  "ace_char c = (is_word_char c \<or> c = CHR '','')"

text \<open>\<^verbatim>\<open>str.isspace\<close>, the characters removed by \<^verbatim>\<open>str.strip()\<close>.\<close>

definition is_space :: "char \<Rightarrow> bool" where
  "is_space c =
     (let n = ord c in
        (0x09 \<le> n \<and> n \<le> 0x0D) \<or> (0x1C \<le> n \<and> n \<le> 0x20) \<or> n = 0x85 \<or> n = 0xA0)"


text \<open>\<^verbatim>\<open>str.isprintable\<close>, which decides what \<^verbatim>\<open>repr\<close> escapes.\<close>

definition is_printable :: "char \<Rightarrow> bool" where
  "is_printable c =
     (let n = ord c in
        (0x20 \<le> n \<and> n \<le> 0x7E) \<or> (0xA1 \<le> n \<and> n \<noteq> 0xAD))"

subsection \<open>String operations of the Python library\<close>

text \<open>\<^verbatim>\<open>s.strip()\<close>\<close>

definition strip :: "string \<Rightarrow> string" where
  "strip s = rev (dropWhile is_space (rev (dropWhile is_space s)))"

text \<open>\<^verbatim>\<open>s.endswith(suf)\<close>\<close>

definition endswith :: "string \<Rightarrow> string \<Rightarrow> bool" where
  "endswith s suf = (length suf \<le> length s \<and> drop (length s - length suf) s = suf)"

text \<open>\<^verbatim>\<open>s.removesuffix(suf)\<close>\<close>

definition removesuffix :: "string \<Rightarrow> string \<Rightarrow> string" where
  "removesuffix s suf =
     (if suf \<noteq> [] \<and> endswith s suf then take (length s - length suf) s else s)"

text \<open>
  \<^verbatim>\<open>s.rsplit(sep, 1)\<close> for a one-character separator: the parts before and
  after the last occurrence of the separator. Python returns the one-element list
  \<^verbatim>\<open>[s]\<close> when the separator does not occur; that is \<open>None\<close> here. The program
  unpacks the result into two names only under the guard \<^verbatim>\<open>sep in s\<close>.
\<close>

definition rsplit1 :: "char \<Rightarrow> string \<Rightarrow> (string \<times> string) option" where
  "rsplit1 sep s =
     (if sep \<in> set s
      then Some (rev (tl (dropWhile (\<lambda>c. c \<noteq> sep) (rev s))),
                 rev (takeWhile (\<lambda>c. c \<noteq> sep) (rev s)))
      else None)"

text \<open>\<^verbatim>\<open>s.split(sep)\<close> for a one-character separator.\<close>

fun split_on :: "char \<Rightarrow> string \<Rightarrow> string list" where
  "split_on sep [] = [[]]"
| "split_on sep (c # cs) =
     (if c = sep then [] # split_on sep cs
      else (case split_on sep cs of
              [] \<Rightarrow> [[c]]
            | p # ps \<Rightarrow> (c # p) # ps))"



text \<open>Two lower-case hexadecimal digits, as in an \<^verbatim>\<open>\xNN\<close> escape.\<close>

definition hex_digit :: "nat \<Rightarrow> char" where
  "hex_digit n = ''0123456789abcdef'' ! (n mod 16)"

definition hex2 :: "char \<Rightarrow> string" where
  "hex2 c = [hex_digit (ord c div 16), hex_digit (ord c)]"

text \<open>
  \<^verbatim>\<open>repr(s)\<close> of a string: double quotes when the text has a single quote and no
  double quote, single quotes otherwise; the backslash, the chosen quote, tab, line
  feed and carriage return are escaped by a backslash, every other non-printable
  character by \<^verbatim>\<open>\xNN\<close>.
\<close>

definition repr_char :: "char \<Rightarrow> char \<Rightarrow> string" where
  "repr_char q c =
     (if c = q \<or> c = BACKSLASH then [BACKSLASH, c]
      else if c = TAB then [BACKSLASH, CHR ''t'']
      else if c = LF then [BACKSLASH, CHR ''n'']
      else if c = CR then [BACKSLASH, CHR ''r'']
      else if is_printable c then [c]
      else [BACKSLASH, CHR ''x''] @ hex2 c)"

definition py_repr :: "string \<Rightarrow> string" where
  "py_repr s =
     (let q = (if QUOTE \<in> set s \<and> DQUOTE \<notin> set s then DQUOTE else QUOTE)
      in [q] @ concat (map (repr_char q) s) @ [q])"


text \<open>\<^verbatim>\<open>str(b)\<close> of a boolean.\<close>

definition str_bool :: "bool \<Rightarrow> string" where
  "str_bool b = (if b then ''True'' else ''False'')"

text \<open>The text an f-string gives for an optional description: \<^verbatim>\<open>None\<close> prints as its name.\<close>

definition str_opt :: "string option \<Rightarrow> string" where
  "str_opt d = (case d of None \<Rightarrow> ''None'' | Some s \<Rightarrow> s)"

text \<open>Truth value of an optional string: \<^verbatim>\<open>None\<close> and the empty string are false.\<close>

definition truthy :: "string option \<Rightarrow> bool" where
  "truthy v = (case v of None \<Rightarrow> False | Some s \<Rightarrow> s \<noteq> [])"

subsection \<open>The rights tables\<close>

text \<open>
  The dictionaries keep their insertion order (the listing mode prints in that
  order), so each is an association list; \<^const>\<open>map_of\<close> is the lookup.
\<close>

definition DACL_BASIC_RIGHTS :: "(string \<times> string) list" where
  "DACL_BASIC_RIGHTS =
     [(''F'', ''Full access''),
      (''M'', ''Modify access''),
      (''RX'', ''Read and execute access''),
      (''R'', ''Read-only access''),
      (''W'', ''Write-only access'')]"

definition DACL_ADVANCED_RIGHTS :: "(string \<times> string) list" where
  "DACL_ADVANCED_RIGHTS =
     [(''D'', ''Delete''),
      (''RC'', ''Read control (read permissions)''),
      (''WDAC'', ''Write DAC (change permissions)''),
      (''WO'', ''Write owner (take ownership)''),
      (''S'', ''Synchronize''),
      (''AS'', ''Access system security''),
      (''MA'', ''Maximum allowed''),
      (''GR'', ''Generic read''),
      (''GW'', ''Generic write''),
      (''GE'', ''Generic execute''),
      (''GA'', ''Generic all''),
      (''RD'', ''Read data/list directory''),
      (''WD'', ''Write data/add file''),
      (''AD'', ''Append data/add subdirectory''),
      (''REA'', ''Read extended attributes''),
      (''WEA'', ''Write extended attributes''),
      (''X'', ''Execute/traverse''),
      (''DC'', ''Delete child''),
      (''RA'', ''Read attributes''),
      (''WA'', ''Write attributes'')]"

text \<open>Each inheritance entry: short name, long description, directory-only flag.\<close>

definition DACL_INHERITANCE_RIGHTS :: "(string \<times> (string \<times> string \<times> bool)) list" where
  "DACL_INHERITANCE_RIGHTS =
     [(''I'', (''Inherit'', ''ACE inherited from the parent container.'', False)),
      (''OI'', (''Object Inherit'', ''Objects in this container will inherit this ACE.'', True)),
      (''CI'', (''Container Inherit'',
                ''Containers in this parent container will inherit this ACE.'', True)),
      (''IO'', (''Inherit Only'',
                ''ACE inherited from the parent container, but does not apply to the object itself.'',
                True)),
      (''NP'', (''Do Not Propagate Inherit'',
                ''Do not propagate inherit. ACE inherited by containers and objects from '' @
                ''the parent container, but does not propagate to nested containers.'',
                True))]"

subsection \<open>The ACE tokenizer\<close>

text \<open>
  \<^verbatim>\<open>RE_ACE.findall(line)\<close> for the pattern \<^verbatim>\<open>\(([\w,]+)\)\<close>: the
  non-overlapping matches from left to right, each given by its one group. At an
  opening parenthesis the greedy class takes the longest run of \<^verbatim>\<open>[\w,]\<close>
  characters; the match succeeds when that run is not empty and a closing
  parenthesis follows it (a shorter run is followed by a class character, so
  backtracking finds nothing more). After a match the search goes on behind it,
  otherwise at the next character.
\<close>

function findall_ace :: "string \<Rightarrow> string list" where
  "findall_ace [] = []"
| "findall_ace (c # cs) =
     (if c = CHR ''(''
      then (let grp = takeWhile ace_char cs; rest = dropWhile ace_char cs
            in if grp \<noteq> [] \<and> rest \<noteq> [] \<and> hd rest = CHR '')''
               then grp # findall_ace (tl rest)
               else findall_ace cs)
      else findall_ace cs)"
  by pat_completeness auto
termination
proof (relation "measure length")
  show "wf (measure length)" by simp
next
  fix c :: char and cs grp rest :: string
  assume "rest = dropWhile ace_char cs"
  moreover have "length (dropWhile ace_char cs) \<le> length cs"
    by (rule length_dropWhile_le)
  ultimately have "length (tl rest) \<le> length cs" by simp
  then show "(tl rest, c # cs) \<in> measure length" by simp
next
  fix c :: char and cs :: string
  show "(cs, c # cs) \<in> measure length" by simp
next
  fix c :: char and cs :: string
  show "(cs, c # cs) \<in> measure length" by simp
qed

subsection \<open>Output\<close>

text \<open>
  Everything goes to standard output, either through \<^verbatim>\<open>logging\<close> (a record
  with a level and a message; the formatter puts the level's prefix and, on request,
  a timestamp in front) or through \<^verbatim>\<open>print\<close>. The output of the program is the
  list of these records in the order they are written.
\<close>

datatype level = DEBUG | INFO | WARNING | ERROR

datatype out = Log level string | Print string

text \<open>\<^verbatim>\<open>LoggerFormatter.format\<close>: the prefix chosen for a level.\<close>

fun prefix_of :: "level \<Rightarrow> string" where
  "prefix_of DEBUG = ''[+]''"
| "prefix_of INFO = ''[*]''"
| "prefix_of WARNING = ''[!]''"
| "prefix_of ERROR = ''[-]''"


subsection \<open>Listing mode\<close>



subsection \<open>Rendering the ACE tokens of a line\<close>

text \<open>
  The loop over \<^verbatim>\<open>ace_list\<close> with its two flags \<^verbatim>\<open>first_perm\<close> and
  \<^verbatim>\<open>first_inherit\<close>. \<open>inherit_lines\<close> and \<open>perm_lines\<close> are the
  \<^verbatim>\<open>print\<close> calls of the two branches.
\<close>

definition inherit_lines :: "bool \<Rightarrow> string \<Rightarrow> string \<times> string \<times> bool \<Rightarrow> out list" where
  "inherit_lines dtl ace entry =
     (case entry of (name, desc, dir_only) \<Rightarrow>
        [Print ([TAB] @ ''+ ('' @ ace @ ''): '' @ name @ '' (dir-only: '' @ str_bool dir_only @ '')'')] @
        (if dtl then [Print ([TAB, TAB] @ py_repr desc)] else []))"

text \<open>\<^verbatim>\<open>DACL_BASIC_RIGHTS.get(ace_key, DACL_ADVANCED_RIGHTS.get(ace_key))\<close>\<close>

definition lookup_desc :: "string \<Rightarrow> string option" where
  "lookup_desc ace_key =
     (case map_of DACL_BASIC_RIGHTS ace_key of
        Some d \<Rightarrow> Some d
      | None \<Rightarrow> map_of DACL_ADVANCED_RIGHTS ace_key)"

definition perm_line :: "string \<Rightarrow> out" where
  "perm_line ace_key = Print ([TAB] @ ''+ ('' @ ace_key @ ''): '' @ str_opt (lookup_desc ace_key))"

definition perm_lines :: "string \<Rightarrow> out list" where
  "perm_lines ace = map perm_line (split_on CHR '','' ace)"

fun render_aces :: "bool \<Rightarrow> string list \<Rightarrow> bool \<Rightarrow> bool \<Rightarrow> out list" where
  "render_aces dtl [] first_perm first_inherit = []"
| "render_aces dtl (ace # aces) first_perm first_inherit =
     (case map_of DACL_INHERITANCE_RIGHTS ace of
        Some entry \<Rightarrow>
          (if first_inherit then [Log INFO ''Inheritance Rights:''] else []) @
          inherit_lines dtl ace entry @
          render_aces dtl aces first_perm False
      | None \<Rightarrow>
          (if first_perm then [Log INFO ''Permissions:''] else []) @
          perm_lines ace @
          render_aces dtl aces False first_inherit)"

subsection \<open>Identity extraction\<close>

text \<open>
  The part of the loop body that sets \<^verbatim>\<open>target_file\<close>, \<^verbatim>\<open>target_account\<close>
  and \<^verbatim>\<open>current_dacl_string\<close>, from the first-line flag, the value of
  \<^verbatim>\<open>target_file\<close> before the line, and the line. Each guard
  (\<^verbatim>\<open>":" in line\<close>, \<^verbatim>\<open>" " in target\<close>) and the \<^verbatim>\<open>rsplit\<close> it protects are
  one case distinction: \<^const>\<open>rsplit1\<close> is \<open>None\<close> exactly when the separator is
  missing.
\<close>

definition extract_identity ::
    "bool \<Rightarrow> string option \<Rightarrow> string \<Rightarrow> string option \<times> string option \<times> string" where
  "extract_identity first tfile line =
     (case rsplit1 CHR '':'' line of
        None \<Rightarrow> (tfile, None, line)
      | Some (target, current_dacl_string) \<Rightarrow>
          (case (if first then rsplit1 CHR '' '' target else None) of
             Some (cand_file, cand_account) \<Rightarrow>
               if \<not> endswith cand_file ''NT''
               then (None, Some target, current_dacl_string)
               else (Some (strip (removesuffix cand_file ''NT'')),
                     Some (''NT '' @ cand_account), current_dacl_string)
           | None \<Rightarrow> (tfile, Some target, current_dacl_string)))"

subsection \<open>The loop over the lines\<close>

record loop_state =
  target_file :: "string option"
  is_first_line :: bool

definition init_state :: loop_state where
  "init_state = \<lparr>target_file = None, is_first_line = True\<rparr>"

text \<open>
  The records written in front of the entries of a line: the target file (first
  line only), the account, and the rights string.
\<close>

definition header_lines :: "bool \<Rightarrow> string option \<times> string option \<times> string \<Rightarrow> out list" where
  "header_lines first ident =
     (case ident of (tf, target_account, current_dacl_string) \<Rightarrow>
        (if truthy tf \<and> first
         then [Log INFO (''Target: '' @ the tf @ [LF])] else []) @
        (if truthy target_account
         then [Log INFO (''SID Name: '' @ strip (the target_account))] else []) @
        [Log INFO (''DACL: '' @ py_repr (strip current_dacl_string))])"

text \<open>One iteration: the records written for the line and the state after it.\<close>

definition process_line :: "bool \<Rightarrow> string \<Rightarrow> loop_state \<Rightarrow> out list \<times> loop_state" where
  "process_line dtl line st =
     (let ace_list = findall_ace line;
          ident = extract_identity (is_first_line st) (target_file st) line;
          output =
            (if length ace_list > 0
             then header_lines (is_first_line st) ident @
                  render_aces dtl ace_list True True @
                  [Print []]
             else [])
      in (output, \<lparr>target_file = fst ident, is_first_line = False\<rparr>))"

fun process_lines :: "bool \<Rightarrow> string list \<Rightarrow> loop_state \<Rightarrow> out list \<times> loop_state" where
  "process_lines dtl [] st = ([], st)"
| "process_lines dtl (line # lines) st =
     (let (o1, st1) = process_line dtl line st;
          (o2, st2) = process_lines dtl lines st1
      in (o1 @ o2, st2))"

subsection \<open>The program\<close>

datatype list_choice = Basic | Advanced | Inheritance | All







subsection \<open>Notions used by the properties\<close>

text \<open>A token is an inheritance entry when it is a key of the inheritance table.\<close>

definition is_inherit :: "string \<Rightarrow> bool" where
  "is_inherit ace = (map_of DACL_INHERITANCE_RIGHTS ace \<noteq> None)"

text \<open>The \<^verbatim>\<open>print\<close> records of one token, whichever branch it takes.\<close>

definition ace_lines :: "bool \<Rightarrow> string \<Rightarrow> out list" where
  "ace_lines dtl ace =
     (case map_of DACL_INHERITANCE_RIGHTS ace of
        Some entry \<Rightarrow> inherit_lines dtl ace entry
      | None \<Rightarrow> perm_lines ace)"

fun is_print :: "out \<Rightarrow> bool" where
  "is_print (Print s) = True"
| "is_print (Log lvl msg) = False"

text \<open>
  An entry line is a printed line that starts with a tab, a plus sign and an opening
  parenthesis; the long description printed with \<^verbatim>\<open>-details\<close> starts with two
  tabs and the separator line is empty.
\<close>

fun is_entry :: "out \<Rightarrow> bool" where
  "is_entry (Print s) = (take 4 s = [TAB] @ ''+ ('')"
| "is_entry (Log lvl msg) = False"

text \<open>The number of entry lines a token gives rise to.\<close>

definition entry_count :: "string \<Rightarrow> nat" where
  "entry_count ace = (if is_inherit ace then 1 else length (split_on CHR '','' ace))"

text \<open>The record that reports the target file.\<close>

fun is_target_record :: "out \<Rightarrow> bool" where
  "is_target_record (Log lvl msg) = (take 8 msg = ''Target: '')"
| "is_target_record (Print s) = False"

text \<open>
  The grouped rendering as the specification words it: the section of all
  inheritance entries first, then the section of all other entries, each with its
  header when it is not empty, the tokens of a section in their original order.
\<close>

definition render_grouped :: "bool \<Rightarrow> string list \<Rightarrow> out list" where
  "render_grouped dtl aces =
     (let inh = filter is_inherit aces;
          perm = filter (\<lambda>ace. \<not> is_inherit ace) aces
      in (if inh \<noteq> [] then Log INFO ''Inheritance Rights:'' # concat (map (ace_lines dtl) inh) else []) @
         (if perm \<noteq> [] then Log INFO ''Permissions:'' # concat (map (ace_lines dtl) perm) else []))"

text \<open>Every inheritance token comes before every other token.\<close>

definition inherit_first :: "string list \<Rightarrow> bool" where
  "inherit_first aces =
     (aces = filter is_inherit aces @ filter (\<lambda>ace. \<not> is_inherit ace) aces)"

section \<open>Properties\<close>

subsection \<open>Splitting and tokenizing\<close>

lemma rsplit1_None: "rsplit1 sep s = None \<longleftrightarrow> sep \<notin> set s"
  by (simp add: rsplit1_def)

lemma rsplit1_append: "sep \<notin> set b \<Longrightarrow> rsplit1 sep (a @ sep # b) = Some (a, b)"
proof -
  assume b: "sep \<notin> set b"
  let ?P = "\<lambda>c. c \<noteq> sep"
  have all: "takeWhile ?P (rev b) = rev b" "dropWhile ?P (rev b) = []"
    using b by auto
  have tw: "takeWhile ?P (rev b @ sep # rev a) = rev b"
    using takeWhile_tail [of ?P sep "rev b" "rev a"] all by simp
  have dw: "dropWhile ?P (rev b @ sep # rev a) = sep # rev a"
    using dropWhile_append3 [of ?P sep "rev b" "rev a"] all by simp
  show ?thesis using tw dw by (simp add: rsplit1_def)
qed

lemma not_ace_char_colon: "\<not> ace_char CHR '':''"
  by (simp add: ace_char_def is_word_char_def ord_def)

lemma findall_ace_paren:
  "findall_ace (CHR ''('' # cs) =
     (if takeWhile ace_char cs \<noteq> [] \<and> dropWhile ace_char cs \<noteq> [] \<and>
         hd (dropWhile ace_char cs) = CHR '')''
      then takeWhile ace_char cs # findall_ace (tl (dropWhile ace_char cs))
      else findall_ace cs)"
  by (simp only: findall_ace.simps Let_def simp_thms if_True)

lemma findall_ace_colon:
  "findall_ace (a @ CHR '':'' # b) = findall_ace a @ findall_ace b"
proof (induction a rule: findall_ace.induct)
  case 1
  show ?case by simp
next
  case (2 c cs)
  show ?case
  proof (cases "c = CHR ''(''")
    case False
    with 2 show ?thesis by simp
  next
    case True
    define grp where "grp = takeWhile ace_char cs"
    define rest where "rest = dropWhile ace_char cs"
    have tw: "takeWhile ace_char (cs @ CHR '':'' # b) = grp"
      unfolding grp_def
      using takeWhile_tail [of ace_char "CHR '':''" cs b] not_ace_char_colon by simp
    have dw: "dropWhile ace_char (cs @ CHR '':'' # b) = rest @ CHR '':'' # b"
      unfolding rest_def
      using dropWhile_append3 [of ace_char "CHR '':''" cs b] not_ace_char_colon by simp
    have lhs: "findall_ace ((c # cs) @ CHR '':'' # b) =
        (if grp \<noteq> [] \<and> rest @ CHR '':'' # b \<noteq> [] \<and> hd (rest @ CHR '':'' # b) = CHR '')''
         then grp # findall_ace (tl (rest @ CHR '':'' # b))
         else findall_ace (cs @ CHR '':'' # b))"
      unfolding True append_Cons findall_ace_paren tw dw ..
    have rhs: "findall_ace (c # cs) =
        (if grp \<noteq> [] \<and> rest \<noteq> [] \<and> hd rest = CHR '')''
         then grp # findall_ace (tl rest) else findall_ace cs)"
      unfolding True findall_ace_paren grp_def rest_def ..
    show ?thesis
    proof (cases "grp \<noteq> [] \<and> rest \<noteq> [] \<and> hd rest = CHR '')''")
      case m: True
      have ih: "findall_ace (tl rest @ CHR '':'' # b) = findall_ace (tl rest) @ findall_ace b"
        using 2(1) [OF True refl refl] m unfolding grp_def rest_def by blast
      from m have tl_eq: "tl (rest @ CHR '':'' # b) = tl rest @ CHR '':'' # b"
        and m': "grp \<noteq> [] \<and> rest @ CHR '':'' # b \<noteq> [] \<and> hd (rest @ CHR '':'' # b) = CHR '')''"
        by simp_all
      have l: "findall_ace ((c # cs) @ CHR '':'' # b) = grp # findall_ace (tl rest @ CHR '':'' # b)"
        using lhs if_P [OF m'] tl_eq by (simp only:)
      have r: "findall_ace (c # cs) = grp # findall_ace (tl rest)"
        using rhs if_P [OF m] by (simp only:)
      show ?thesis unfolding l r ih by simp
    next
      case nm: False
      have ih: "findall_ace (cs @ CHR '':'' # b) = findall_ace cs @ findall_ace b"
        using 2(2) [OF True refl refl] nm unfolding grp_def rest_def by blast
      have nm': "\<not> (grp \<noteq> [] \<and> rest @ CHR '':'' # b \<noteq> [] \<and> hd (rest @ CHR '':'' # b) = CHR '')'')"
        using nm by (cases rest) auto
      have l: "findall_ace ((c # cs) @ CHR '':'' # b) = findall_ace (cs @ CHR '':'' # b)"
        using lhs if_not_P [OF nm'] by (simp only:)
      have r: "findall_ace (c # cs) = findall_ace cs"
        using rhs if_not_P [OF nm] by (simp only:)
      show ?thesis unfolding l r ih ..
    qed
  qed
qed

subsection \<open>One loop iteration\<close>

lemma process_line_out:
  "fst (process_line dtl line st) =
     (if findall_ace line = [] then []
      else header_lines (is_first_line st)
             (extract_identity (is_first_line st) (target_file st) line) @
           render_aces dtl (findall_ace line) True True @ [Print []])"
  by (simp add: process_line_def Let_def)

lemma process_line_state:
  "snd (process_line dtl line st) =
     \<lparr>target_file = fst (extract_identity (is_first_line st) (target_file st) line),
      is_first_line = False\<rparr>"
  by (simp add: process_line_def Let_def)

subsection \<open>The reference tables\<close>

text \<open>
  C8. The three reference tables are pairwise disjoint: no rights code is a key of
  more than one of the Basic, Advanced and Inheritance tables.
\<close>

theorem C8_tables_pairwise_disjoint:
  "set (map fst DACL_BASIC_RIGHTS) \<inter> set (map fst DACL_ADVANCED_RIGHTS) = {} \<and>
   set (map fst DACL_BASIC_RIGHTS) \<inter> set (map fst DACL_INHERITANCE_RIGHTS) = {} \<and>
   set (map fst DACL_ADVANCED_RIGHTS) \<inter> set (map fst DACL_INHERITANCE_RIGHTS) = {}"
  by (simp add: DACL_BASIC_RIGHTS_def DACL_ADVANCED_RIGHTS_def DACL_INHERITANCE_RIGHTS_def)

subsection \<open>Which part of the line is tokenized\<close>

text \<open>
  C6, as the code has it. The tokenizer runs on the whole line, not on the part
  behind the last colon. For a line \<open>target:raw\<close> (no colon in \<open>raw\<close>) the split
  at the last colon gives \<open>target\<close> and \<open>raw\<close>, and the ACE tokens of the line are
  the parenthesized groups of \<open>target\<close> followed by those of \<open>raw\<close>, from left to
  right; these are the tokens that are rendered.
\<close>

theorem C6_tokens_of_whole_line:
  "CHR '':'' \<notin> set raw \<longrightarrow>
     rsplit1 CHR '':'' (target @ CHR '':'' # raw) = Some (target, raw) \<and>
     findall_ace (target @ CHR '':'' # raw) = findall_ace target @ findall_ace raw \<and>
     fst (process_line dtl (target @ CHR '':'' # raw) st) =
       (if findall_ace target @ findall_ace raw = [] then []
        else header_lines (is_first_line st)
               (extract_identity (is_first_line st) (target_file st) (target @ CHR '':'' # raw)) @
             render_aces dtl (findall_ace target @ findall_ace raw) True True @ [Print []])"
  by (simp add: rsplit1_append findall_ace_colon process_line_out del: findall_ace.simps)

theorem C6_tokens_of_whole_line_witness:
  "CHR '':'' \<notin> set ''(F)'' \<and>
   rsplit1 CHR '':'' (''(X) a'' @ CHR '':'' # ''(F)'') = Some (''(X) a'', ''(F)'') \<and>
   findall_ace (''(X) a'' @ CHR '':'' # ''(F)'') = findall_ace ''(X) a'' @ findall_ace ''(F)''"
  using C6_tokens_of_whole_line [of "''(F)''" "''(X) a''" False init_state] by simp

text \<open>
  The claim as stated fails on the line \<^verbatim>\<open>(X) a:(F)\<close>: the rights string behind
  the last colon has the one group \<open>F\<close>, yet the group \<open>X\<close> in front of the
  colon is a token too and is rendered as a permission entry.
\<close>

theorem C6_counterexample:
  "rsplit1 CHR '':'' ''(X) a:(F)'' = Some (''(X) a'', ''(F)'') \<and>
   findall_ace ''(F)'' = [''F''] \<and>
   findall_ace ''(X) a:(F)'' = [''X'', ''F''] \<and>
   fst (process_line False ''(X) a:(F)'' init_state) =
     [Log INFO ''SID Name: (X) a'',
      Log INFO (''DACL: '' @ [QUOTE] @ ''(F)'' @ [QUOTE]),
      Log INFO ''Permissions:'',
      Print ([TAB] @ ''+ (X): Execute/traverse''),
      Print ([TAB] @ ''+ (F): Full access''),
      Print []]"
  by code_simp

subsection \<open>Table lookups and the permission branch\<close>

lemma map_of_None_keys: "map_of tbl k = None \<longleftrightarrow> k \<notin> set (map fst tbl)"
  by (simp add: map_of_eq_None_iff)

lemma is_inherit_keys: "is_inherit ace \<longleftrightarrow> ace \<in> set (map fst DACL_INHERITANCE_RIGHTS)"
  by (simp add: is_inherit_def map_of_eq_None_iff)

lemma lookup_desc_None:
  "k \<notin> set (map fst DACL_BASIC_RIGHTS) \<Longrightarrow> k \<notin> set (map fst DACL_ADVANCED_RIGHTS) \<Longrightarrow>
   lookup_desc k = None"
  using map_of_None_keys [of DACL_BASIC_RIGHTS k] map_of_None_keys [of DACL_ADVANCED_RIGHTS k]
  by (simp add: lookup_desc_def)

lemma perm_lines_in_render:
  "ace \<in> set aces \<Longrightarrow> map_of DACL_INHERITANCE_RIGHTS ace = None \<Longrightarrow>
   set (perm_lines ace) \<subseteq> set (render_aces dtl aces fp fi)"
proof (induction aces arbitrary: fp fi)
  case Nil
  then show ?case by simp
next
  case (Cons a aces)
  show ?case
  proof (cases "ace = a")
    case True
    with Cons.prems show ?thesis by auto
  next
    case False
    with Cons.prems have "ace \<in> set aces" by simp
    then have "set (perm_lines ace) \<subseteq> set (render_aces dtl aces fp' fi')" for fp' fi'
      using Cons.IH Cons.prems(2) by blast
    then show ?thesis by (auto split: option.splits)
  qed
qed

lemma comma_not_inherit: "CHR '','' \<in> set ace \<Longrightarrow> map_of DACL_INHERITANCE_RIGHTS ace = None"
  by (auto simp: DACL_INHERITANCE_RIGHTS_def)


subsection \<open>Codes that are in no table\<close>

text \<open>
  C1, as the code has it. For every ACE token of a line that is not a key of the
  Inheritance table, and every comma-separated piece of it that is a key of neither
  the Basic nor the Advanced table, the line's output has the entry made of the
  literal piece followed by the text \<open>None\<close>, which is what the failed lookup
  prints. Rendering is a total function: no input makes it fail.
\<close>

theorem C1_unknown_piece_prints_None:
  "ace \<in> set (findall_ace line) \<and> ace \<notin> set (map fst DACL_INHERITANCE_RIGHTS) \<and>
   k \<in> set (split_on CHR '','' ace) \<and>
   k \<notin> set (map fst DACL_BASIC_RIGHTS) \<and> k \<notin> set (map fst DACL_ADVANCED_RIGHTS) \<longrightarrow>
   Print ([TAB] @ ''+ ('' @ k @ ''): None'') \<in> set (fst (process_line dtl line st))"
proof
  assume a: "ace \<in> set (findall_ace line) \<and> ace \<notin> set (map fst DACL_INHERITANCE_RIGHTS) \<and>
   k \<in> set (split_on CHR '','' ace) \<and>
   k \<notin> set (map fst DACL_BASIC_RIGHTS) \<and> k \<notin> set (map fst DACL_ADVANCED_RIGHTS)"
  then have none: "lookup_desc k = None" by (simp add: lookup_desc_None)
  from a have ne: "findall_ace line \<noteq> []" by auto
  from a have inh: "map_of DACL_INHERITANCE_RIGHTS ace = None"
    by (simp add: map_of_None_keys)
  have "perm_line k \<in> set (perm_lines ace)"
    using a by (simp add: perm_lines_def)
  then have "perm_line k \<in> set (render_aces dtl (findall_ace line) True True)"
    using perm_lines_in_render [of ace "findall_ace line" dtl True True] a inh by blast
  moreover have "perm_line k = Print ([TAB] @ ''+ ('' @ k @ ''): None'')"
    by (simp add: perm_line_def none str_opt_def)
  ultimately show "Print ([TAB] @ ''+ ('' @ k @ ''): None'') \<in> set (fst (process_line dtl line st))"
    using ne by (simp add: process_line_out)
qed

theorem C1_unknown_piece_prints_None_witness:
  "''ZZ'' \<in> set (findall_ace ''X:(ZZ)'') \<and> ''ZZ'' \<notin> set (map fst DACL_INHERITANCE_RIGHTS) \<and>
   ''ZZ'' \<in> set (split_on CHR '','' ''ZZ'') \<and>
   ''ZZ'' \<notin> set (map fst DACL_BASIC_RIGHTS) \<and> ''ZZ'' \<notin> set (map fst DACL_ADVANCED_RIGHTS) \<and>
   Print ([TAB] @ ''+ ('' @ ''ZZ'' @ ''): None'') \<in> set (fst (process_line False ''X:(ZZ)'' init_state))"
proof -
  have h: "''ZZ'' \<in> set (findall_ace ''X:(ZZ)'') \<and> ''ZZ'' \<notin> set (map fst DACL_INHERITANCE_RIGHTS) \<and>
   ''ZZ'' \<in> set (split_on CHR '','' ''ZZ'') \<and>
   ''ZZ'' \<notin> set (map fst DACL_BASIC_RIGHTS) \<and> ''ZZ'' \<notin> set (map fst DACL_ADVANCED_RIGHTS)"
    by code_simp
  with C1_unknown_piece_prints_None [of "''ZZ''" "''X:(ZZ)''" "''ZZ''" False init_state]
  show ?thesis by blast
qed

text \<open>
  The claim as stated asks for the placeholder \<open>Unknown\<close>. On the line
  \<^verbatim>\<open>X:(ZZ)\<close> the piece \<open>ZZ\<close> is in no table, and the output has no entry with
  \<open>Unknown\<close>: the entry reads \<open>None\<close>.
\<close>

theorem C1_counterexample:
  "''ZZ'' \<in> set (findall_ace ''X:(ZZ)'') \<and> ''ZZ'' \<notin> set (map fst DACL_INHERITANCE_RIGHTS) \<and>
   ''ZZ'' \<in> set (split_on CHR '','' ''ZZ'') \<and>
   ''ZZ'' \<notin> set (map fst DACL_BASIC_RIGHTS) \<and> ''ZZ'' \<notin> set (map fst DACL_ADVANCED_RIGHTS) \<and>
   Print ([TAB] @ ''+ (ZZ): Unknown'') \<notin> set (fst (process_line False ''X:(ZZ)'' init_state)) \<and>
   fst (process_line False ''X:(ZZ)'' init_state) =
     [Log INFO ''SID Name: X'',
      Log INFO (''DACL: '' @ [QUOTE] @ ''(ZZ)'' @ [QUOTE]),
      Log INFO ''Permissions:'',
      Print ([TAB] @ ''+ (ZZ): None''),
      Print []]"
  by code_simp

subsection \<open>Tokens that bundle several codes\<close>



subsection \<open>Lines without a colon\<close>

lemma extract_identity_no_colon:
  "CHR '':'' \<notin> set line \<Longrightarrow> extract_identity first tf line = (tf, None, line)"
  by (simp add: extract_identity_def rsplit1_def)

text \<open>
  C2, as the code has it. The rendering of a line is guarded by the token list, not
  by the colon. For a line without a colon, processed in the initial state or in
  any later one (the file of the state is unset while the first-line flag is up),
  no target line and no account line is written; the line gives no output exactly
  when it has no parenthesized ACE token, and otherwise the rights line made of the
  whole stripped line, the section headers and entries, and the separator.
\<close>

theorem C2_colonless_line_output:
  "CHR '':'' \<notin> set line \<and> (is_first_line st \<longrightarrow> target_file st = None) \<longrightarrow>
     fst (process_line dtl line st) =
       (if findall_ace line = [] then []
        else Log INFO (''DACL: '' @ py_repr (strip line)) #
             render_aces dtl (findall_ace line) True True @ [Print []]) \<and>
     (fst (process_line dtl line st) = [] \<longleftrightarrow> findall_ace line = [])"
  by (auto simp: process_line_out extract_identity_no_colon header_lines_def truthy_def
      simp del: findall_ace.simps)

theorem C2_colonless_line_output_witness:
  "CHR '':'' \<notin> set ''(F)'' \<and> target_file init_state = None \<and>
   findall_ace ''(F)'' \<noteq> [] \<and>
   fst (process_line False ''(F)'' init_state) =
     Log INFO (''DACL: '' @ py_repr (strip ''(F)'')) #
     render_aces False (findall_ace ''(F)'') True True @ [Print []]"
proof -
  have h: "CHR '':'' \<notin> set ''(F)'' \<and> target_file init_state = None"
    by (simp add: init_state_def)
  have t: "findall_ace ''(F)'' \<noteq> []" by code_simp
  from C2_colonless_line_output [of "''(F)''" init_state False] h t
  show ?thesis by (simp del: findall_ace.simps)
qed

text \<open>
  The claim as stated fails on the line \<^verbatim>\<open>(F)\<close>, which has no colon and is
  rendered with its rights line, the \<open>Permissions:\<close> header and the entry of
  \<open>F\<close>.
\<close>

theorem C2_counterexample:
  "CHR '':'' \<notin> set ''(F)'' \<and>
   fst (process_line False ''(F)'' init_state) =
     [Log INFO (''DACL: '' @ [QUOTE] @ ''(F)'' @ [QUOTE]),
      Log INFO ''Permissions:'',
      Print ([TAB] @ ''+ (F): Full access''),
      Print []]"
  by code_simp

subsection \<open>The file and the account of the first line\<close>

text \<open>
  C5, as the code has it. On the first line, for a target \<open>cand_file\<close>, space,
  \<open>cand_account\<close> (the split at the last space), the split is accepted exactly
  when the candidate file part, as it is and without trimming, ends with \<open>NT\<close>.
  Then the account is \<open>NT\<close> and a space in front of the candidate account, and
  the file is the candidate file without the trailing \<open>NT\<close> and without the
  surrounding whitespace; otherwise the account is the whole untrimmed target and
  there is no file.
\<close>

theorem C5_split_accepted_on_untrimmed_suffix:
  "CHR '':'' \<notin> set raw \<and> CHR '' '' \<notin> set cand_account \<longrightarrow>
     extract_identity True tf (cand_file @ CHR '' '' # cand_account @ CHR '':'' # raw) =
       (if endswith cand_file ''NT''
        then (Some (strip (removesuffix cand_file ''NT'')), Some (''NT '' @ cand_account), raw)
        else (None, Some (cand_file @ CHR '' '' # cand_account), raw))"
proof
  assume a: "CHR '':'' \<notin> set raw \<and> CHR '' '' \<notin> set cand_account"
  have c: "rsplit1 CHR '':'' ((cand_file @ CHR '' '' # cand_account) @ CHR '':'' # raw) =
             Some (cand_file @ CHR '' '' # cand_account, raw)"
    using a rsplit1_append [of "CHR '':''" raw "cand_file @ CHR '' '' # cand_account"] by blast
  have s: "rsplit1 CHR '' '' (cand_file @ CHR '' '' # cand_account) = Some (cand_file, cand_account)"
    using a rsplit1_append [of "CHR '' ''" cand_account cand_file] by blast
  from c have c': "rsplit1 CHR '':'' (cand_file @ CHR '' '' # cand_account @ CHR '':'' # raw) =
             Some (cand_file @ CHR '' '' # cand_account, raw)" by simp
  show "extract_identity True tf (cand_file @ CHR '' '' # cand_account @ CHR '':'' # raw) =
       (if endswith cand_file ''NT''
        then (Some (strip (removesuffix cand_file ''NT'')), Some (''NT '' @ cand_account), raw)
        else (None, Some (cand_file @ CHR '' '' # cand_account), raw))"
    unfolding extract_identity_def c' by (simp add: s)
qed

theorem C5_split_accepted_on_untrimmed_suffix_witness:
  "CHR '':'' \<notin> set ''(F)'' \<and> CHR '' '' \<notin> set ''SYSTEM'' \<and> endswith ''file.txt NT'' ''NT'' \<and>
   extract_identity True None (''file.txt NT'' @ CHR '' '' # ''SYSTEM'' @ CHR '':'' # ''(F)'') =
     (Some ''file.txt'', Some ''NT SYSTEM'', ''(F)'')"
proof -
  have h: "CHR '':'' \<notin> set ''(F)'' \<and> CHR '' '' \<notin> set ''SYSTEM''" by simp
  have e: "endswith ''file.txt NT'' ''NT''" by code_simp
  have r: "strip (removesuffix ''file.txt NT'' ''NT'') = ''file.txt''" by code_simp
  from C5_split_accepted_on_untrimmed_suffix [of "''(F)''" "''SYSTEM''" None "''file.txt NT''"] h e r
  show ?thesis by simp
qed

text \<open>
  The claim as stated tests the suffix after trimming. On the first line
  \<^verbatim>\<open>a NT  b:(F)\<close> (two spaces) the candidate file part is \<open>a NT\<close> and a
  space; trimmed it ends with \<open>NT\<close>, yet the split is discarded.
\<close>

theorem C5_counterexample:
  "CHR '' '' \<in> set ''a NT  b'' \<and>
   rsplit1 CHR '':'' ''a NT  b:(F)'' = Some (''a NT  b'', ''(F)'') \<and>
   rsplit1 CHR '' '' ''a NT  b'' = Some (''a NT '', ''b'') \<and>
   endswith (strip ''a NT '') ''NT'' \<and>
   extract_identity True None ''a NT  b:(F)'' = (None, Some ''a NT  b'', ''(F)'')"
  by code_simp

subsection \<open>Listing mode and the usage conflict\<close>




subsection \<open>The first-line flag\<close>

lemma render_aces_no_target:
  "\<forall>r \<in> set (render_aces dtl aces fp fi). \<not> is_target_record r"
  by (induction aces arbitrary: fp fi)
     (auto simp: inherit_lines_def perm_lines_def perm_line_def split: option.splits)

lemma header_lines_no_target:
  "\<forall>r \<in> set (header_lines False ident). \<not> is_target_record r"
  by (cases ident) (auto simp: header_lines_def)

lemma extract_identity_later:
  "fst (extract_identity False tf line) = tf"
  by (simp add: extract_identity_def split: option.splits prod.splits)

lemma process_line_later:
  "\<not> is_first_line st \<Longrightarrow>
   target_file (snd (process_line dtl line st)) = target_file st \<and>
   \<not> is_first_line (snd (process_line dtl line st)) \<and>
   (\<forall>r \<in> set (fst (process_line dtl line st)). \<not> is_target_record r)"
  using render_aces_no_target [of dtl "findall_ace line" True True]
        header_lines_no_target [of "extract_identity False (target_file st) line"]
  by (auto simp: process_line_out process_line_state extract_identity_later
      simp del: findall_ace.simps)

lemma process_lines_later:
  "\<not> is_first_line st \<Longrightarrow>
   target_file (snd (process_lines dtl ls st)) = target_file st \<and>
   (\<forall>r \<in> set (fst (process_lines dtl ls st)). \<not> is_target_record r)"
proof (induction ls arbitrary: st)
  case Nil
  then show ?case by simp
next
  case (Cons l ls)
  let ?st1 = "snd (process_line dtl l st)"
  from Cons.prems have one:
    "target_file ?st1 = target_file st" "\<not> is_first_line ?st1"
    "\<forall>r \<in> set (fst (process_line dtl l st)). \<not> is_target_record r"
    using process_line_later [of st dtl l] by blast+
  from Cons.IH [OF one(2)] have rest:
    "target_file (snd (process_lines dtl ls ?st1)) = target_file ?st1"
    "\<forall>r \<in> set (fst (process_lines dtl ls ?st1)). \<not> is_target_record r"
    by blast+
  show ?case using one rest by (auto simp: split_beta)
qed

text \<open>
  C10. Only the first line of the input can set the target file. The first-line
  flag is down after every iteration, whatever the line was (blank, without a
  colon, without output). A line processed with the flag down leaves the target
  file of the state as it was and writes no target record. So for an input of at
  least one line the target file at the end is the one found on the first line,
  and the output is that of the first line followed by records among which there
  is no target record.
\<close>

theorem C10_only_first_line_sets_target_file:
  "\<not> is_first_line (snd (process_line dtl line st)) \<and>
   (\<not> is_first_line st \<longrightarrow>
      target_file (snd (process_line dtl line st)) = target_file st \<and>
      (\<forall>r \<in> set (fst (process_line dtl line st)). \<not> is_target_record r)) \<and>
   target_file (snd (process_lines dtl (l # ls) init_state)) =
     target_file (snd (process_line dtl l init_state)) \<and>
   fst (process_lines dtl (l # ls) init_state) =
     fst (process_line dtl l init_state) @
     fst (process_lines dtl ls (snd (process_line dtl l init_state))) \<and>
   (\<forall>r \<in> set (fst (process_lines dtl ls (snd (process_line dtl l init_state)))).
      \<not> is_target_record r)"
proof -
  have a: "\<not> is_first_line (snd (process_line dtl line' st'))" for line' st'
    by (simp add: process_line_state)
  have b: "\<not> is_first_line st \<longrightarrow>
      target_file (snd (process_line dtl line st)) = target_file st \<and>
      (\<forall>r \<in> set (fst (process_line dtl line st)). \<not> is_target_record r)"
    using process_line_later [of st dtl line] by blast
  have c: "target_file (snd (process_lines dtl ls (snd (process_line dtl l init_state)))) =
        target_file (snd (process_line dtl l init_state)) \<and>
      (\<forall>r \<in> set (fst (process_lines dtl ls (snd (process_line dtl l init_state)))).
        \<not> is_target_record r)"
    using process_lines_later [OF a] by blast
  have d: "process_lines dtl (l # ls) init_state =
      (fst (process_line dtl l init_state) @
         fst (process_lines dtl ls (snd (process_line dtl l init_state))),
       snd (process_lines dtl ls (snd (process_line dtl l init_state))))"
    by (simp add: split_beta)
  show ?thesis using a b c d by simp
qed

theorem C10_only_first_line_sets_target_file_witness:
  "\<not> is_first_line (snd (process_line False [] init_state)) \<and>
   target_file (snd (process_line False ''g NT B:(R)'' (snd (process_line False [] init_state)))) =
     None \<and>
   filter is_target_record
     (fst (process_line False ''g NT B:(R)'' (snd (process_line False [] init_state)))) = [] \<and>
   target_file (snd (process_lines False [''f NT A:(F)'', ''g NT B:(R)''] init_state)) = Some ''f''"
proof -
  have f: "target_file (snd (process_line False ''f NT A:(F)'' init_state)) = Some ''f''"
    by code_simp
  have e: "target_file (snd (process_line False [] init_state)) = None"
    by code_simp
  have n: "\<not> is_first_line (snd (process_line False [] init_state))"
    by (simp add: process_line_state)
  from C10_only_first_line_sets_target_file
         [of False "''g NT B:(R)''" "snd (process_line False [] init_state)"
             "''f NT A:(F)''" "[''g NT B:(R)'']"]
       f e n
  show ?thesis by (simp del: process_lines.simps add: filter_empty_conv)
qed

subsection \<open>The rendering loop\<close>

lemma ace_lines_inherit: "map_of DACL_INHERITANCE_RIGHTS a = Some e \<Longrightarrow> ace_lines dtl a = inherit_lines dtl a e"
  by (simp add: ace_lines_def)

lemma ace_lines_perm: "map_of DACL_INHERITANCE_RIGHTS a = None \<Longrightarrow> ace_lines dtl a = perm_lines a"
  by (simp add: ace_lines_def)

lemma render_aces_Cons:
  "render_aces dtl (a # aces) fp fi =
     (if is_inherit a
      then (if fi then [Log INFO ''Inheritance Rights:''] else []) @ ace_lines dtl a @
           render_aces dtl aces fp False
      else (if fp then [Log INFO ''Permissions:''] else []) @ ace_lines dtl a @
           render_aces dtl aces False fi)"
  by (auto simp: is_inherit_def ace_lines_def split: option.splits)

lemma ace_lines_all_print: "filter is_print (ace_lines dtl a) = ace_lines dtl a"
  by (auto simp: ace_lines_def inherit_lines_def perm_lines_def perm_line_def filter_map comp_def
      split: option.splits)

lemma ace_lines_no_log: "Log lvl msg \<notin> set (ace_lines dtl a)"
  by (auto simp: ace_lines_def inherit_lines_def perm_lines_def perm_line_def
      split: option.splits)

lemma ace_lines_count_log: "count_list (ace_lines dtl a) (Log lvl msg) = 0"
  using ace_lines_no_log [of lvl msg dtl a] by (simp add: count_list_0_iff)

lemma is_entry_inherit_lines:
  "is_inherit a \<Longrightarrow> length (filter is_entry (ace_lines dtl a)) = 1"
  by (auto simp: is_inherit_def ace_lines_def inherit_lines_def TAB_def)

lemma is_entry_perm_lines:
  "\<not> is_inherit a \<Longrightarrow> length (filter is_entry (ace_lines dtl a)) = length (split_on CHR '','' a)"
proof -
  assume "\<not> is_inherit a"
  then have n: "map_of DACL_INHERITANCE_RIGHTS a = None" unfolding is_inherit_def by blast
  have "filter is_entry (perm_lines a) = perm_lines a"
    by (simp add: perm_lines_def perm_line_def filter_map comp_def TAB_def)
  then show ?thesis by (simp add: ace_lines_perm [OF n]) (simp add: perm_lines_def)
qed

lemma entries_of_ace_lines: "length (filter is_entry (ace_lines dtl a)) = entry_count a"
  by (simp add: entry_count_def is_entry_inherit_lines is_entry_perm_lines)

lemma render_aces_prints:
  "filter is_print (render_aces dtl aces fp fi) = concat (map (ace_lines dtl) aces)"
  by (induction aces arbitrary: fp fi)
     (simp_all add: render_aces_Cons ace_lines_all_print del: render_aces.simps(2))

lemma render_aces_entries:
  "length (filter is_entry (render_aces dtl aces fp fi)) = sum_list (map entry_count aces)"
  by (induction aces arbitrary: fp fi)
     (simp_all add: render_aces_Cons entries_of_ace_lines del: render_aces.simps(2))

lemma count_inherit_header:
  "count_list (render_aces dtl aces fp fi) (Log INFO ''Inheritance Rights:'') =
     (if fi \<and> (\<exists>a \<in> set aces. is_inherit a) then 1 else 0)"
  by (induction aces arbitrary: fp fi)
     (simp_all add: render_aces_Cons ace_lines_count_log del: render_aces.simps(2))

lemma count_perm_header:
  "count_list (render_aces dtl aces fp fi) (Log INFO ''Permissions:'') =
     (if fp \<and> (\<exists>a \<in> set aces. \<not> is_inherit a) then 1 else 0)"
  by (induction aces arbitrary: fp fi)
     (simp_all add: render_aces_Cons ace_lines_count_log del: render_aces.simps(2))

lemma render_aces_append:
  "render_aces dtl (xs @ ys) fp fi =
     render_aces dtl xs fp fi @
     render_aces dtl ys (fp \<and> (\<forall>a \<in> set xs. is_inherit a)) (fi \<and> (\<forall>a \<in> set xs. \<not> is_inherit a))"
  by (induction xs arbitrary: fp fi)
     (simp_all add: render_aces_Cons del: render_aces.simps(2))

lemma render_all_inherit:
  "\<forall>a \<in> set xs. is_inherit a \<Longrightarrow>
   render_aces dtl xs fp fi =
     (if fi \<and> xs \<noteq> [] then [Log INFO ''Inheritance Rights:''] else []) @
     concat (map (ace_lines dtl) xs)"
  by (induction xs arbitrary: fi)
     (simp_all add: render_aces_Cons del: render_aces.simps(2))

lemma render_all_perm:
  "\<forall>a \<in> set xs. \<not> is_inherit a \<Longrightarrow>
   render_aces dtl xs fp fi =
     (if fp \<and> xs \<noteq> [] then [Log INFO ''Permissions:''] else []) @
     concat (map (ace_lines dtl) xs)"
  by (induction xs arbitrary: fp)
     (simp_all add: render_aces_Cons del: render_aces.simps(2))

lemma render_grouped_sorted:
  assumes "\<forall>a \<in> set inh. is_inherit a" and "\<forall>a \<in> set perm. \<not> is_inherit a"
  shows "render_aces dtl (inh @ perm) True True = render_grouped dtl (inh @ perm)"
proof -
  have f1: "filter is_inherit (inh @ perm) = inh"
    using assms by (simp add: filter_id_conv filter_empty_conv)
  have f2: "filter (\<lambda>ace. \<not> is_inherit ace) (inh @ perm) = perm"
    using assms by (simp add: filter_id_conv filter_empty_conv)
  have g: "render_grouped dtl (inh @ perm) =
      (if inh \<noteq> [] then Log INFO ''Inheritance Rights:'' # concat (map (ace_lines dtl) inh) else []) @
      (if perm \<noteq> [] then Log INFO ''Permissions:'' # concat (map (ace_lines dtl) perm) else [])"
    unfolding render_grouped_def f1 f2 by (simp add: Let_def)
  have r: "render_aces dtl (inh @ perm) True True =
      render_aces dtl inh True True @ render_aces dtl perm True (inh = [])"
  proof -
    have "(\<forall>a \<in> set inh. \<not> is_inherit a) \<longleftrightarrow> inh = []"
      using assms(1) by (cases inh) auto
    then show ?thesis
      using assms(1) render_aces_append [of dtl inh perm True True] by simp
  qed
  show ?thesis
    unfolding r g using assms
    by (simp add: render_all_inherit render_all_perm del: render_aces.simps(2))
qed


lemma concat_lines_no_log: "Log lvl msg \<notin> set (concat (map (ace_lines dtl) xs))"
  using ace_lines_no_log by auto

lemma ace_lines_nonempty: "ace_lines dtl a \<noteq> []"
proof (cases "map_of DACL_INHERITANCE_RIGHTS a")
  case None
  have "split_on CHR '','' a \<noteq> []" by (cases a) (auto split: list.splits)
  then show ?thesis by (simp add: ace_lines_perm [OF None] perm_lines_def)
next
  case (Some e)
  then show ?thesis by (cases e) (simp add: ace_lines_inherit [OF Some] inherit_lines_def)
qed

lemma concat_lines_nonempty: "xs \<noteq> [] \<Longrightarrow> concat (map (ace_lines dtl) xs) \<noteq> []"
  using ace_lines_nonempty by (cases xs) auto

lemma takeWhile_upto:
  "x \<notin> set xs \<Longrightarrow> takeWhile (\<lambda>r. r \<noteq> x) (xs @ x # ys) = xs"
  by (induction xs) auto

lemma render_first_perm:
  "\<forall>a \<in> set pre. is_inherit a \<Longrightarrow> \<not> is_inherit p \<Longrightarrow>
   render_aces dtl (pre @ p # post) True True =
     render_aces dtl pre True True @
     Log INFO ''Permissions:'' # ace_lines dtl p @ render_aces dtl post False (pre = [])"
proof -
  assume a: "\<forall>a \<in> set pre. is_inherit a" and p: "\<not> is_inherit p"
  have "(\<forall>a \<in> set pre. \<not> is_inherit a) \<longleftrightarrow> pre = []"
    using a by (cases pre) auto
  then show ?thesis
    using a p render_aces_append [of dtl pre "p # post" True True]
    by (simp add: render_aces_Cons del: render_aces.simps(2))
qed

lemma render_first_inherit:
  "\<forall>a \<in> set pre. \<not> is_inherit a \<Longrightarrow> is_inherit i \<Longrightarrow>
   render_aces dtl (pre @ i # post) True True =
     render_aces dtl pre True True @
     Log INFO ''Inheritance Rights:'' # ace_lines dtl i @ render_aces dtl post (pre = []) False"
proof -
  assume a: "\<forall>a \<in> set pre. \<not> is_inherit a" and i: "is_inherit i"
  have "(\<forall>a \<in> set pre. is_inherit a) \<longleftrightarrow> pre = []"
    using a by (cases pre) auto
  then show ?thesis
    using a i render_aces_append [of dtl pre "i # post" True True]
    by (simp add: render_aces_Cons del: render_aces.simps(2))
qed

lemma inherit_first_sorted:
  "\<forall>a \<in> set inh. is_inherit a \<Longrightarrow> \<forall>a \<in> set perm. \<not> is_inherit a \<Longrightarrow> inherit_first (inh @ perm)"
  by (simp add: inherit_first_def filter_id_conv filter_empty_conv)

lemma grouped_imp_inherit_first:
  assumes eq: "render_aces dtl aces True True = render_grouped dtl aces"
  shows "inherit_first aces"
proof (cases "dropWhile is_inherit aces")
  case Nil
  then have "\<forall>a \<in> set aces. is_inherit a" by simp
  then show ?thesis using inherit_first_sorted [of aces "[]"] by simp
next
  case (Cons p post)
  define pre where "pre = takeWhile is_inherit aces"
  define H where "H = Log INFO ''Permissions:''"
  have aces: "aces = pre @ p # post"
    unfolding pre_def using Cons takeWhile_dropWhile_id [of is_inherit aces] by simp
  have pre: "\<forall>a \<in> set pre. is_inherit a"
    unfolding pre_def by (auto dest: set_takeWhileD)
  have p: "\<not> is_inherit p"
    using Cons hd_dropWhile [of is_inherit aces] by auto
  define J where "J = filter is_inherit post"
  have I: "filter is_inherit aces = pre @ J"
    unfolding aces J_def using pre p by (simp add: filter_id_conv)
  have P: "filter (\<lambda>a. \<not> is_inherit a) aces = p # filter (\<lambda>a. \<not> is_inherit a) post"
    unfolding aces using pre p by (simp add: filter_empty_conv)
  define A where "A = (if pre @ J \<noteq> []
      then Log INFO ''Inheritance Rights:'' # concat (map (ace_lines dtl) (pre @ J)) else [])"
  have HA: "H \<notin> set A"
    unfolding A_def H_def using concat_lines_no_log [of INFO "''Permissions:''" dtl "pre @ J"]
    by simp
  have rhs: "render_grouped dtl aces =
      A @ H # concat (map (ace_lines dtl) (filter (\<lambda>a. \<not> is_inherit a) aces))"
    unfolding render_grouped_def I P A_def H_def by (simp add: Let_def)
  define B where "B = render_aces dtl pre True True"
  have B: "B = (if pre \<noteq> [] then [Log INFO ''Inheritance Rights:''] else []) @
      concat (map (ace_lines dtl) pre)"
    unfolding B_def using render_all_inherit [OF pre, of dtl True True] by simp
  have HB: "H \<notin> set B"
    unfolding B H_def using concat_lines_no_log [of INFO "''Permissions:''" dtl pre] by simp
  have lhs: "render_aces dtl aces True True =
      B @ H # ace_lines dtl p @ render_aces dtl post False (pre = [])"
    unfolding aces B_def H_def using render_first_perm [OF pre p] by simp
  have "takeWhile (\<lambda>r. r \<noteq> H) (render_aces dtl aces True True) = B"
    unfolding lhs using takeWhile_upto [OF HB] by simp
  moreover have "takeWhile (\<lambda>r. r \<noteq> H) (render_grouped dtl aces) = A"
    unfolding rhs using takeWhile_upto [OF HA] by simp
  ultimately have AB: "A = B" using eq by simp
  have "J = []"
  proof (rule ccontr)
    assume nj: "J \<noteq> []"
    then have "concat (map (ace_lines dtl) J) \<noteq> []" by (rule concat_lines_nonempty)
    then have "0 < length (concat (map (ace_lines dtl) J))" by simp
    moreover have "length A = 1 + length (concat (map (ace_lines dtl) pre)) +
        length (concat (map (ace_lines dtl) J))"
      unfolding A_def using nj by simp
    moreover have "length B \<le> 1 + length (concat (map (ace_lines dtl) pre))"
      unfolding B by simp
    ultimately show False using AB by simp
  qed
  then have "\<forall>a \<in> set (p # post). \<not> is_inherit a"
    unfolding J_def using p by (simp add: filter_empty_conv)
  then show ?thesis unfolding aces using pre by (rule inherit_first_sorted [rotated])
qed

lemma grouped_iff_inherit_first:
  "render_aces dtl aces True True = render_grouped dtl aces \<longleftrightarrow> inherit_first aces"
proof
  assume "render_aces dtl aces True True = render_grouped dtl aces"
  then show "inherit_first aces" by (rule grouped_imp_inherit_first)
next
  assume "inherit_first aces"
  then have "aces = filter is_inherit aces @ filter (\<lambda>a. \<not> is_inherit a) aces"
    by (simp add: inherit_first_def)
  moreover have "render_aces dtl (filter is_inherit aces @ filter (\<lambda>a. \<not> is_inherit a) aces) True True =
      render_grouped dtl (filter is_inherit aces @ filter (\<lambda>a. \<not> is_inherit a) aces)"
    by (rule render_grouped_sorted) simp_all
  ultimately show "render_aces dtl aces True True = render_grouped dtl aces" by simp
qed


subsection \<open>Sections and their order\<close>

text \<open>
  C3, as the code has it. The loop writes the entries in token order and each
  header when the first token of its kind comes. So the printed lines are the
  lines of the tokens in their original order; each of the two headers is written
  exactly once when the token list has a token of its kind, and not at all
  otherwise, immediately before the lines of the first token of that kind. The
  output is the grouped one, the \<open>Inheritance Rights\<close> section followed by the
  \<open>Permissions\<close> section, exactly when every inheritance token comes before
  every other token; with interleaved tokens the sections follow the order in which
  the kinds are met.
\<close>

theorem C3_sections_follow_encounter_order:
  "filter is_print (render_aces dtl aces True True) = concat (map (ace_lines dtl) aces) \<and>
   count_list (render_aces dtl aces True True) (Log INFO ''Inheritance Rights:'') =
     (if \<exists>a \<in> set aces. is_inherit a then 1 else 0) \<and>
   count_list (render_aces dtl aces True True) (Log INFO ''Permissions:'') =
     (if \<exists>a \<in> set aces. \<not> is_inherit a then 1 else 0) \<and>
   ((\<forall>a \<in> set xs. \<not> is_inherit a) \<and> is_inherit i \<longrightarrow>
      render_aces dtl (xs @ i # ys) True True =
        render_aces dtl xs True True @
        Log INFO ''Inheritance Rights:'' # ace_lines dtl i @ render_aces dtl ys (xs = []) False) \<and>
   ((\<forall>a \<in> set us. is_inherit a) \<and> \<not> is_inherit p \<longrightarrow>
      render_aces dtl (us @ p # vs) True True =
        render_aces dtl us True True @
        Log INFO ''Permissions:'' # ace_lines dtl p @ render_aces dtl vs False (us = [])) \<and>
   (render_aces dtl aces True True = render_grouped dtl aces \<longleftrightarrow> inherit_first aces)"
  using render_aces_prints [of dtl aces True True]
        count_inherit_header [of dtl aces True True]
        count_perm_header [of dtl aces True True]
        render_first_inherit [of xs i dtl ys]
        render_first_perm [of us p dtl vs]
        grouped_iff_inherit_first [of dtl aces]
  by (simp del: render_aces.simps)

theorem C3_sections_follow_encounter_order_witness:
  "is_inherit ''OI'' \<and> \<not> is_inherit ''F'' \<and> inherit_first [''OI'', ''F''] \<and>
   render_aces False [''OI'', ''F''] True True = render_grouped False [''OI'', ''F''] \<and>
   count_list (render_aces False [''OI'', ''F''] True True) (Log INFO ''Inheritance Rights:'') = 1 \<and>
   count_list (render_aces False [''OI'', ''F''] True True) (Log INFO ''Permissions:'') = 1 \<and>
   render_aces False ([''F''] @ ''OI'' # []) True True =
     render_aces False [''F''] True True @
     Log INFO ''Inheritance Rights:'' # ace_lines False ''OI'' @ render_aces False [] False False \<and>
   render_aces False ([''OI''] @ ''F'' # []) True True =
     render_aces False [''OI''] True True @
     Log INFO ''Permissions:'' # ace_lines False ''F'' @ render_aces False [] False False"
proof -
  have h: "is_inherit ''OI'' \<and> \<not> is_inherit ''F'' \<and> inherit_first [''OI'', ''F'']"
    by code_simp
  note T = C3_sections_follow_encounter_order
         [of False "[''OI'', ''F'']" "[''F'']" "''OI''" "[]" "[''OI'']" "''F''" "[]"]
  have e1: "\<exists>a \<in> set [''OI'', ''F'']. is_inherit a" using h by simp
  have e2: "\<exists>a \<in> set [''OI'', ''F'']. \<not> is_inherit a" using h by simp
  have h1: "(\<forall>a \<in> set [''F'']. \<not> is_inherit a) \<and> is_inherit ''OI''" using h by simp
  have h2: "(\<forall>a \<in> set [''OI'']. is_inherit a) \<and> \<not> is_inherit ''F''" using h by simp
  from T have "count_list (render_aces False [''OI'', ''F''] True True) (Log INFO ''Inheritance Rights:'') =
     (if \<exists>a \<in> set [''OI'', ''F'']. is_inherit a then 1 else 0)" by blast
  then have c1: "count_list (render_aces False [''OI'', ''F''] True True) (Log INFO ''Inheritance Rights:'') = 1"
    by (simp only: e1 if_True)
  from T have "count_list (render_aces False [''OI'', ''F''] True True) (Log INFO ''Permissions:'') =
     (if \<exists>a \<in> set [''OI'', ''F'']. \<not> is_inherit a then 1 else 0)" by blast
  then have c2: "count_list (render_aces False [''OI'', ''F''] True True) (Log INFO ''Permissions:'') = 1"
    by (simp only: e2 if_True)
  from T h1 have g1: "render_aces False ([''F''] @ ''OI'' # []) True True =
     render_aces False [''F''] True True @
     Log INFO ''Inheritance Rights:'' # ace_lines False ''OI'' @ render_aces False [] ([''F''] = []) False"
    by blast
  from T h2 have g2: "render_aces False ([''OI''] @ ''F'' # []) True True =
     render_aces False [''OI''] True True @
     Log INFO ''Permissions:'' # ace_lines False ''F'' @ render_aces False [] False ([''OI''] = [])"
    by blast
  from T h have g3: "render_aces False [''OI'', ''F''] True True = render_grouped False [''OI'', ''F'']"
    by blast
  have f: "([''F''] = ([]::string list)) = False" "([''OI''] = ([]::string list)) = False" by simp_all
  show ?thesis using h c1 c2 g1 g2 g3 unfolding f by blast
qed

text \<open>
  The claim as stated fails on the line \<^verbatim>\<open>X:(F)(OI)\<close>, the example it names:
  the \<open>Permissions:\<close> header and the entry of \<open>F\<close> are written before the
  \<open>Inheritance Rights:\<close> header and the entry of \<open>OI\<close>, while the grouped
  rendering has them the other way round.
\<close>

theorem C3_counterexample:
  "findall_ace ''X:(F)(OI)'' = [''F'', ''OI''] \<and>
   is_inherit ''OI'' \<and> \<not> is_inherit ''F'' \<and>
   render_aces False [''F'', ''OI''] True True =
     [Log INFO ''Permissions:'',
      Print ([TAB] @ ''+ (F): Full access''),
      Log INFO ''Inheritance Rights:'',
      Print ([TAB] @ ''+ (OI): Object Inherit (dir-only: True)'')] \<and>
   render_grouped False [''F'', ''OI''] =
     [Log INFO ''Inheritance Rights:'',
      Print ([TAB] @ ''+ (OI): Object Inherit (dir-only: True)''),
      Log INFO ''Permissions:'',
      Print ([TAB] @ ''+ (F): Full access'')] \<and>
   render_aces False [''F'', ''OI''] True True \<noteq> render_grouped False [''F'', ''OI'']"
  by code_simp

subsection \<open>Counting the entry lines\<close>

lemma length_split_on:
  "length (split_on sep s) = Suc (length (filter (\<lambda>c. c = sep) s))"
  by (induction s) (auto split: list.splits)

lemma entry_count_pos: "1 \<le> entry_count a"
  by (simp add: entry_count_def length_split_on)

lemma entry_count_one: "entry_count a = 1 \<longleftrightarrow> CHR '','' \<notin> set a"
proof (cases "is_inherit a")
  case True
  then have "CHR '','' \<notin> set a"
    using comma_not_inherit [of a] by (auto simp: is_inherit_def)
  with True show ?thesis by (simp add: entry_count_def)
next
  case False
  then show ?thesis
    by (auto simp: entry_count_def length_split_on filter_empty_conv)
qed

lemma sum_entry_count:
  "length aces \<le> sum_list (map entry_count aces) \<and>
   (sum_list (map entry_count aces) = length aces \<longleftrightarrow> (\<forall>a \<in> set aces. entry_count a = 1))"
proof (induction aces)
  case Nil
  show ?case by simp
next
  case (Cons a aces)
  have "1 \<le> entry_count a" by (rule entry_count_pos)
  with Cons show ?case by auto
qed

lemma header_lines_no_entry: "filter is_entry (header_lines first ident) = []"
  by (cases ident) (simp add: header_lines_def)

lemma process_line_entries:
  "length (filter is_entry (fst (process_line dtl line st))) =
     sum_list (map entry_count (findall_ace line))"
  by (simp add: process_line_out header_lines_no_entry render_aces_entries
      del: findall_ace.simps render_aces.simps)

text \<open>
  C4, as the code has it. The number of entry lines of a line is the sum, over its
  tokens, of one for an inheritance token and of the number of comma-separated
  pieces for any other token. This is at least the number of tokens, and equal to
  it exactly when no token has a comma.
\<close>

theorem C4_entry_lines_count_pieces:
  "length (filter is_entry (fst (process_line dtl line st))) =
     sum_list (map entry_count (findall_ace line)) \<and>
   length (findall_ace line) \<le> length (filter is_entry (fst (process_line dtl line st))) \<and>
   (length (filter is_entry (fst (process_line dtl line st))) = length (findall_ace line) \<longleftrightarrow>
      (\<forall>ace \<in> set (findall_ace line). CHR '','' \<notin> set ace))"
proof -
  have "(\<forall>a \<in> set (findall_ace line). entry_count a = 1) \<longleftrightarrow>
        (\<forall>ace \<in> set (findall_ace line). CHR '','' \<notin> set ace)"
    by (simp only: entry_count_one)
  then show ?thesis
    using sum_entry_count [of "findall_ace line"]
    unfolding process_line_entries by blast
qed

theorem C4_entry_lines_count_pieces_witness:
  "findall_ace ''X:(OI)(F)'' = [''OI'', ''F''] \<and>
   CHR '','' \<notin> set ''OI'' \<and> CHR '','' \<notin> set ''F'' \<and>
   length (filter is_entry (fst (process_line False ''X:(OI)(F)'' init_state))) =
     length (findall_ace ''X:(OI)(F)'')"
proof -
  have t: "findall_ace ''X:(OI)(F)'' = [''OI'', ''F'']" by code_simp
  from C4_entry_lines_count_pieces [of False "''X:(OI)(F)''" init_state] t
  show ?thesis by (simp del: findall_ace.simps)
qed

text \<open>
  The claim as stated fails on the line \<^verbatim>\<open>X:(RD,WD,AD)\<close>, the bundled token
  it names: one token, three entry lines.
\<close>

theorem C4_counterexample:
  "findall_ace ''X:(RD,WD,AD)'' = [''RD,WD,AD''] \<and>
   length (findall_ace ''X:(RD,WD,AD)'') = 1 \<and>
   length (filter is_entry (fst (process_line False ''X:(RD,WD,AD)'' init_state))) = 3 \<and>
   fst (process_line False ''X:(RD,WD,AD)'' init_state) =
     [Log INFO ''SID Name: X'',
      Log INFO (''DACL: '' @ [QUOTE] @ ''(RD,WD,AD)'' @ [QUOTE]),
      Log INFO ''Permissions:'',
      Print ([TAB] @ ''+ (RD): Read data/list directory''),
      Print ([TAB] @ ''+ (WD): Write data/add file''),
      Print ([TAB] @ ''+ (AD): Append data/add subdirectory''),
      Print []]"
  by code_simp

end
